theory Spec2Isabelle
  imports Main "HOL-Library.Word"
begin

section \<open>Data model of torch/csrc/lazy/core/lazy_mode.cpp\<close>

text \<open>
  The dispatch keys the file names are \<open>Lazy\<close> and \<open>TESTING_ONLY_GenericWrapper\<close>;
  every other key of the dispatcher is an \<open>OtherKey\<close>.
\<close>

datatype DispatchKey = Lazy | TESTING_ONLY_GenericWrapper | OtherKey nat

text \<open>
  \<open>c10::Device\<close> (c10/core/Device.h, included by lazy_mode.h) is a device type and an
  optional index. The file reads \<open>type()\<close> and \<open>has_index()\<close> only, and compares the
  type with \<open>c10::kLazy\<close>.
\<close>

datatype DeviceType = kCPU | kCUDA | kLazy | kOtherDevice nat

datatype Device = Device (dev_type: DeviceType) (dev_index: "nat option")

definition has_index :: "Device \<Rightarrow> bool" where
  "has_index d = (dev_index d \<noteq> None)"

text \<open>
  \<open>TORCH_CHECK\<close> and \<open>TORCH_INTERNAL_ASSERT\<close> throw; a collaborator may throw an
  error of its own. A call either returns or raises.
\<close>

datatype error = TorchCheck string | InternalAssert string | CollaboratorError nat

datatype 'a result = Returned 'a | Raised error

text \<open>
  What a thread does to the outside and returns nothing from is kept as a trace, in
  order: calls of \<open>c10::impl::tls_set_dispatch_key_included\<close>, \<open>LOG(WARNING)\<close> lines
  (the streamed parts), and calls of \<open>LazyGraphExecutor::SyncLiveTensorsGraph\<close>
  (backend device, device names, wait).
\<close>

datatype log_part = Text string | Dev Device

datatype 'bd event =
    TlsSetIncluded DispatchKey bool
  | LogWarning "log_part list"
  | Sync 'bd "string list" bool

text \<open>
  The thread-local state: \<open>_nest_counter\<close> of \<open>_lazy_mode_nests\<close> (a \<open>size_t\<close>, 64 bits,
  wrapping), and the included and excluded sets of the local dispatch key set.
\<close>

record 'bd thread_state =
  nest_counter :: "64 word"
  included :: "DispatchKey set"
  excluded :: "DispatchKey set"
  trace :: "'bd event list"

text \<open>
  \<open>thread_local size_t _nest_counter{0}\<close>; the local dispatch key set of a fresh
  thread includes and excludes no key.
\<close>

definition initial_thread_state :: "'bd thread_state" where
  "initial_thread_state =
     \<lparr>nest_counter = 0, included = {}, excluded = {}, trace = []\<rparr>"

text \<open>
  The collaborators the file calls and does not define. The backend device type
  \<open>'bd\<close>, the operator handle \<open>'op\<close> and the stack values \<open>'v\<close> are opaque.
  A boxed call gets the operand stack and the thread-local state it runs in, and
  gives back whether it threw and the stack it leaves; it does not change the
  thread-local state of this file.
\<close>

record ('bd, 'op, 'v) collaborators =
  atenDeviceToBackendDevice :: "Device \<Rightarrow> 'bd"
  toString :: "'bd \<Rightarrow> string"
  EagerFallbackDeviceType :: DeviceType
  redispatchBoxed ::
    "'op \<Rightarrow> DispatchKey set \<Rightarrow> 'v list \<Rightarrow> 'bd thread_state \<Rightarrow> error option \<times> 'v list"
  ts_eager_fallback ::
    "'op \<Rightarrow> 'v list \<Rightarrow> DeviceType \<Rightarrow> 'bd thread_state \<Rightarrow> error option \<times> 'v list"

section \<open>The nesting counter\<close>

definition lazy_mode_nests :: "'bd thread_state \<Rightarrow> 64 word" where
  "lazy_mode_nests s = nest_counter s"

text \<open>\<open>return _lazy_mode_nests()++;\<close>\<close>

definition lazy_mode_inc :: "'bd thread_state \<Rightarrow> 64 word \<times> 'bd thread_state" where
  "lazy_mode_inc s = (lazy_mode_nests s, s\<lparr>nest_counter := lazy_mode_nests s + 1\<rparr>)"

text \<open>\<open>TORCH_CHECK(_lazy_mode_nests() > 0, ...); return --_lazy_mode_nests();\<close>\<close>

definition ScopeUnderflow :: error where
  "ScopeUnderflow = TorchCheck ''Attempting to exit from a lazy mode without entering''"

definition lazy_mode_dec :: "'bd thread_state \<Rightarrow> 64 word result \<times> 'bd thread_state" where
  "lazy_mode_dec s =
     (if lazy_mode_nests s > 0
      then (Returned (lazy_mode_nests s - 1), s\<lparr>nest_counter := lazy_mode_nests s - 1\<rparr>)
      else (Raised ScopeUnderflow, s))"

definition in_lazy_mode :: "'bd thread_state \<Rightarrow> bool" where
  "in_lazy_mode s = (lazy_mode_nests s > 0)"

section \<open>Enter and Exit\<close>

text \<open>
  Modelled from the spec: \<open>c10::impl::tls_set_dispatch_key_included\<close>
  (c10/core/impl/LocalDispatchKeySet.h) is defined outside the file. It sets the
  inclusion of one key in the thread-local included set to the given value.
\<close>

definition tls_set_dispatch_key_included ::
  "DispatchKey \<Rightarrow> bool \<Rightarrow> 'bd thread_state \<Rightarrow> 'bd thread_state" where
  "tls_set_dispatch_key_included k b s =
     s\<lparr>included := (if b then insert k (included s) else included s - {k}),
       trace := trace s @ [TlsSetIncluded k b]\<rparr>"

text \<open>
  Modelled from the spec: \<open>LazyGraphExecutor::SyncLiveTensorsGraph\<close>
  (torch/csrc/lazy/core/lazy_graph_executor.h) is defined outside the file. The call
  submits the pending work of the given devices and returns; what the thread does is
  the call, with its arguments.
\<close>

definition SyncLiveTensorsGraph ::
  "'bd \<Rightarrow> string list \<Rightarrow> bool \<Rightarrow> 'bd thread_state \<Rightarrow> 'bd thread_state" where
  "SyncLiveTensorsGraph backend_device backend_devices wait s =
     s\<lparr>trace := trace s @ [Sync backend_device backend_devices wait]\<rparr>"

definition LazyModeEnter :: "Device \<Rightarrow> 'bd thread_state \<Rightarrow> unit result \<times> 'bd thread_state" where
  "LazyModeEnter device s =
     (case lazy_mode_inc s of
        (n, s1) \<Rightarrow>
          if n = 0 then (Returned (), tls_set_dispatch_key_included Lazy True s1)
          else (Returned (), s1))"

definition LazyModeExit ::
  "('bd, 'op, 'v) collaborators \<Rightarrow> Device \<Rightarrow> 'bd thread_state \<Rightarrow> unit result \<times> 'bd thread_state"
where
  "LazyModeExit X device s =
     (case lazy_mode_dec s of
        (Raised e, s1) \<Rightarrow> (Raised e, s1)
      | (Returned n, s1) \<Rightarrow>
          if n = 0 then
            (let s2 = tls_set_dispatch_key_included Lazy False s1;
                 backend_device = atenDeviceToBackendDevice X device;
                 backend_devices = [toString X backend_device]
             in (Returned (), SyncLiveTensorsGraph backend_device backend_devices True s2))
          else (Returned (), s1))"

text \<open>A thread's calls of Enter and Exit, run in order up to the first one that raises.\<close>

datatype call = Enter Device | Exit Device

fun step ::
  "('bd, 'op, 'v) collaborators \<Rightarrow> call \<Rightarrow> 'bd thread_state \<Rightarrow> unit result \<times> 'bd thread_state"
where
  "step X (Enter device) s = LazyModeEnter device s"
| "step X (Exit device) s = LazyModeExit X device s"

fun run ::
  "('bd, 'op, 'v) collaborators \<Rightarrow> call list \<Rightarrow> 'bd thread_state \<Rightarrow> unit result \<times> 'bd thread_state"
where
  "run X [] s = (Returned (), s)"
| "run X (c # cs) s =
     (case step X c s of
        (Returned u, s1) \<Rightarrow> run X cs s1
      | (Raised e, s1) \<Rightarrow> (Raised e, s1))"

section \<open>Tensors and PrepareTensorForMetaKernel\<close>

text \<open>
  \<open>at::Tensor\<close> is opaque to the file except for \<open>device()\<close>. A tensor is a
  deferred (lazy) value when the type of its device is \<open>kLazy\<close>, which is the test the
  file makes; an \<open>LTCTensor\<close> is the tensor of an \<open>LTCTensorImpl\<close> around a
  \<open>LazyTensor\<close>, which is bound to a backend device and holds the tensor it wraps.
\<close>

datatype ('a, 'bd) Tensor =
    EagerTensor (device: Device) (eager_data: 'a)
  | LTCTensor (device: Device) (ltc_tensor: "('a, 'bd) LazyTensor")
and ('a, 'bd) LazyTensor =
    LazyTensor (bound_device: 'bd) (tensor_data: "('a, 'bd) Tensor")

text \<open>
  Modelled from the spec: \<open>GetOrCreateLtcTensor\<close> and \<open>CreateAtenFromLtcTensor\<close>
  (torch/csrc/lazy/core/tensor.h) are defined outside the file. Together they construct a new
  deferred value bound to the given device whose underlying resolved payload is the
  given value; a deferred value is on the lazy device type, and carries no explicit
  device index (the single-device assumption).
\<close>

definition GetOrCreateLtcTensor :: "('a, 'bd) Tensor \<Rightarrow> 'bd \<Rightarrow> ('a, 'bd) LazyTensor" where
  "GetOrCreateLtcTensor tensor backend_device = LazyTensor backend_device tensor"

definition CreateAtenFromLtcTensor :: "('a, 'bd) LazyTensor \<Rightarrow> ('a, 'bd) Tensor" where
  "CreateAtenFromLtcTensor lt = LTCTensor (Device kLazy None) lt"

definition LOG_WARNING :: "log_part list \<Rightarrow> 'bd thread_state \<Rightarrow> 'bd thread_state" where
  "LOG_WARNING parts s = s\<lparr>trace := trace s @ [LogWarning parts]\<rparr>"

definition PrepareTensorForMetaKernel ::
  "('bd, 'op, 'v) collaborators \<Rightarrow> ('a, 'bd) Tensor \<Rightarrow> Device \<Rightarrow> 'bd thread_state
     \<Rightarrow> ('a, 'bd) Tensor result \<times> 'bd thread_state"
where
  "PrepareTensorForMetaKernel X tensor lazy_device s =
     (if \<not> in_lazy_mode s then
        (if dev_type (device tensor) = kLazy then (Returned tensor, s)
         else (Raised (InternalAssert ''tensor.device().type() == c10::kLazy''), s))
      else if dev_type (device tensor) = kLazy then
        (let s1 = LOG_WARNING
                    [Text ''PrepareTensorForMetaKernel skip move for already-lazy tensor on '',
                     Dev (device tensor)] s
         in if \<not> has_index (device tensor) then (Returned tensor, s1)
            else (Raised (InternalAssert ''!tensor.device().has_index()''), s1))
      else
        (if dev_type (device tensor) \<noteq> kLazy then
           (let s1 = LOG_WARNING
                       [Text ''PrepareTensorForMetaKernel move tensor from '',
                        Dev (device tensor), Text '' to '', Dev lazy_device] s
            in (Returned (CreateAtenFromLtcTensor
                            (GetOrCreateLtcTensor tensor
                               (atenDeviceToBackendDevice X lazy_device))), s1))
         else (Raised (InternalAssert ''tensor.device().type() != c10::kLazy''), s)))"

section \<open>The unlazy handler\<close>

definition GetUnlazyDispatchKey :: DispatchKey where
  "GetUnlazyDispatchKey = TESTING_ONLY_GenericWrapper"

text \<open>
  \<open>TORCH_LIBRARY_IMPL(_, TESTING_ONLY_GenericWrapper, m) { m.fallback(... <&unlazy_handler>()); }\<close>:
  the fallbacks the file registers, as pairs of the dispatch key and the boxed kernel,
  and the kernel registered as the fallback of a key. A key that is excluded on a
  thread is not dispatched to on that thread.
\<close>

datatype boxed_kernel = unlazy_handler_kernel

definition library_fallbacks :: "(DispatchKey \<times> boxed_kernel) list" where
  "library_fallbacks = [(TESTING_ONLY_GenericWrapper, unlazy_handler_kernel)]"

definition registered_fallback :: "DispatchKey \<Rightarrow> boxed_kernel option" where
  "registered_fallback k = map_of library_fallbacks k"

text \<open>
  Modelled from the spec: \<open>c10::impl::ExcludeDispatchKeyGuard\<close>
  (c10/core/impl/LocalDispatchKeySet.h) is defined outside the file. It is a scoped exclusion:
  construction excludes the given keys and remembers the ones it added, destruction
  removes those again, on every exit of the scope, so that the excluded set is
  restored.
\<close>

definition ExcludeDispatchKeyGuard ::
  "DispatchKey set \<Rightarrow> 'bd thread_state \<Rightarrow> DispatchKey set \<times> 'bd thread_state" where
  "ExcludeDispatchKeyGuard ks s =
     (ks - excluded s, s\<lparr>excluded := excluded s \<union> (ks - excluded s)\<rparr>)"

definition ExcludeDispatchKeyGuard_destroy ::
  "DispatchKey set \<Rightarrow> 'bd thread_state \<Rightarrow> 'bd thread_state" where
  "ExcludeDispatchKeyGuard_destroy guard s = s\<lparr>excluded := excluded s - guard\<rparr>"

text \<open>
  The handler returns nothing; the model gives whether it returned or threw, the
  operand stack it leaves and the thread-local state. The guard
  \<open>no_recursive_unlazy\<close> is a local of the second branch: it is destroyed when
  \<open>ts_eager_fallback\<close> returns and when it throws.
\<close>

definition unlazy_handler ::
  "('bd, 'op, 'v) collaborators \<Rightarrow> 'op \<Rightarrow> 'v list \<Rightarrow> 'bd thread_state
     \<Rightarrow> unit result \<times> 'v list \<times> 'bd thread_state"
where
  "unlazy_handler X op stack s =
     (if in_lazy_mode s then
        (let s1 = LOG_WARNING [Text ''unlazy_handler is a no-op inside lazy mode''] s
         in case redispatchBoxed X op {Lazy} stack s1 of
              (None, stack1) \<Rightarrow> (Returned (), stack1, s1)
            | (Some e, stack1) \<Rightarrow> (Raised e, stack1, s1))
      else
        (let s1 = LOG_WARNING [Text ''unlazy_handler is kicking in outside lazy mode''] s
         in case ExcludeDispatchKeyGuard {GetUnlazyDispatchKey} s1 of
              (no_recursive_unlazy, s2) \<Rightarrow>
                (case ts_eager_fallback X op stack (EagerFallbackDeviceType X) s2 of
                   (None, stack1) \<Rightarrow>
                     (Returned (), stack1, ExcludeDispatchKeyGuard_destroy no_recursive_unlazy s2)
                 | (Some e, stack1) \<Rightarrow>
                     (Raised e, stack1, ExcludeDispatchKeyGuard_destroy no_recursive_unlazy s2))))"

section \<open>Notions of the specification\<close>

text \<open>
  The nesting depth as the specification counts it, a natural number: the largest
  depth a sequence of calls reaches when it starts at depth \<open>d\<close>.
\<close>

fun peak :: "nat \<Rightarrow> call list \<Rightarrow> nat" where
  "peak d [] = d"
| "peak d (Enter dev # cs) = max d (peak (Suc d) cs)"
| "peak d (Exit dev # cs) = max d (peak (d - 1) cs)"

text \<open>
  A balanced sequence: no prefix has more Exits than Enters, and the whole sequence has
  as many of each. \<open>balanced r cs\<close> is this for a sequence that starts \<open>r\<close> scopes
  inside the first scope it may leave.
\<close>

fun balanced :: "nat \<Rightarrow> call list \<Rightarrow> bool" where
  "balanced r [] = (r = 0)"
| "balanced r (Enter dev # cs) = balanced (Suc r) cs"
| "balanced r (Exit dev # cs) = (case r of 0 \<Rightarrow> False | Suc r' \<Rightarrow> balanced r' cs)"

text \<open>
  The number of transitions of the depth from 0 to 1 and from 1 to 0 in a sequence
  that starts at depth \<open>d\<close>.
\<close>

fun outer_enters :: "nat \<Rightarrow> call list \<Rightarrow> nat" where
  "outer_enters d [] = 0"
| "outer_enters d (Enter dev # cs) = (if d = 0 then 1 else 0) + outer_enters (Suc d) cs"
| "outer_enters d (Exit dev # cs) = outer_enters (d - 1) cs"

fun outer_exits :: "nat \<Rightarrow> call list \<Rightarrow> nat" where
  "outer_exits d [] = 0"
| "outer_exits d (Enter dev # cs) = outer_exits (Suc d) cs"
| "outer_exits d (Exit dev # cs) = (if d = 1 then 1 else 0) + outer_exits (d - 1) cs"

text \<open>The calls of \<open>SyncLiveTensorsGraph\<close> in a trace, in order.\<close>

fun sync_calls :: "'bd event list \<Rightarrow> ('bd \<times> string list \<times> bool) list" where
  "sync_calls [] = []"
| "sync_calls (Sync bd bds wait # es) = (bd, bds, wait) # sync_calls es"
| "sync_calls (e # es) = sync_calls es"

text \<open>
  The invariant of the routing flag: the \<open>Lazy\<close> key is included exactly when the
  counter is positive.
\<close>

definition flag_inv :: "'bd thread_state \<Rightarrow> bool" where
  "flag_inv s = ((Lazy \<in> included s) = (0 < nest_counter s))"

section \<open>Concrete inputs\<close>

text \<open>
  A backend to run the definitions on: backend devices are the devices themselves,
  the redispatched kernel returns the stack reversed, and the eager fallback throws.
\<close>

definition sample_backend :: "(Device, nat, nat) collaborators" where
  "sample_backend =
     \<lparr>atenDeviceToBackendDevice = (\<lambda>d. d),
      toString = (\<lambda>d. ''lazy''),
      EagerFallbackDeviceType = kCPU,
      redispatchBoxed = (\<lambda>op ks st s. (None, rev st)),
      ts_eager_fallback = (\<lambda>op st dt s. (Some (CollaboratorError 0), st))\<rparr>"

text \<open>
  The same backend with an eager fallback that probes the thread-local state it runs
  in: it throws when \<open>TESTING_ONLY_GenericWrapper\<close> is excluded there, and returns the
  stack reversed when it is not.
\<close>

definition probing_backend :: "(Device, nat, nat) collaborators" where
  "probing_backend =
     \<lparr>atenDeviceToBackendDevice = (\<lambda>d. d),
      toString = (\<lambda>d. ''lazy''),
      EagerFallbackDeviceType = kCPU,
      redispatchBoxed = (\<lambda>op ks st s. (None, rev st)),
      ts_eager_fallback =
        (\<lambda>op st dt s. if TESTING_ONLY_GenericWrapper \<in> excluded s
                      then (Some (CollaboratorError 0), st) else (None, rev st))\<rparr>"

definition lazy0 :: Device where
  "lazy0 = Device kLazy (Some 0)"

definition lazy_any :: Device where
  "lazy_any = Device kLazy None"

definition cpu :: Device where
  "cpu = Device kCPU None"

text \<open>The thread state after one Enter.\<close>

definition inside_state :: "Device thread_state" where
  "inside_state =
     \<lparr>nest_counter = 1, included = {Lazy}, excluded = {}, trace = [TlsSetIncluded Lazy True]\<rparr>"

definition eager_tensor :: "(nat, Device) Tensor" where
  "eager_tensor = EagerTensor cpu 7"

definition lazy_tensor :: "(nat, Device) Tensor" where
  "lazy_tensor = LTCTensor lazy_any (LazyTensor lazy_any eager_tensor)"

definition lazy0_tensor :: "(nat, Device) Tensor" where
  "lazy0_tensor = LTCTensor lazy0 (LazyTensor lazy0 eager_tensor)"

section \<open>Facts about the counter\<close>

lemmas mode_defs =
  LazyModeEnter_def LazyModeExit_def lazy_mode_dec_def lazy_mode_nests_def
  lazy_mode_inc_def tls_set_dispatch_key_included_def SyncLiveTensorsGraph_def

lemma peak_ge: "d \<le> peak d cs"
  by (induction d cs rule: peak.induct) auto

lemma unat_inc: "unat (w :: 64 word) + 1 < 2 ^ 64 \<Longrightarrow> unat (w + 1) = Suc (unat w)"
  by (simp add: unat_word_ariths)

lemma unat_dec: "(w :: 64 word) \<noteq> 0 \<Longrightarrow> unat (w - 1) = unat w - 1"
  by (simp add: unat_minus_one)

lemma unat_is_0: "(unat (w :: 64 word) = 0) = (w = 0)"
  by (metis unsigned_eq_0_iff)

lemma unat_is_1: "(unat (w :: 64 word) = Suc 0) = (w = 1)"
  by (metis One_nat_def unsigned_1 word_eq_iff_unsigned)

lemma pos_iff: "(0 < (w :: 64 word)) = (w \<noteq> 0)"
  by (simp add: word_greater_zero_iff)

text \<open>One Enter below the top of the counter, and one Exit above 0, keep the invariant.\<close>

lemma Enter_step:
  assumes "flag_inv s" "unat (nest_counter s) + 1 < 2 ^ 64"
  shows "\<exists>s1. LazyModeEnter dev s = (Returned (), s1) \<and> flag_inv s1
     \<and> unat (nest_counter s1) = Suc (unat (nest_counter s))
     \<and> excluded s1 = excluded s \<and> included s1 - {Lazy} = included s - {Lazy}
     \<and> trace s1 = trace s @ (if nest_counter s = 0 then [TlsSetIncluded Lazy True] else [])"
proof -
  have nz: "nest_counter s + 1 \<noteq> 0"
    using unat_inc[OF assms(2)] by (metis nat.distinct(1) unat_is_0)
  show ?thesis
    using assms(1) nz unat_inc[OF assms(2)]
    by (auto simp: mode_defs flag_inv_def pos_iff)
qed

lemma Exit_step:
  assumes "flag_inv s" "nest_counter s \<noteq> 0"
  shows "\<exists>s1. LazyModeExit X dev s = (Returned (), s1) \<and> flag_inv s1
     \<and> unat (nest_counter s1) = unat (nest_counter s) - 1
     \<and> excluded s1 = excluded s \<and> included s1 - {Lazy} = included s - {Lazy}
     \<and> trace s1 = trace s @
          (if nest_counter s = 1
           then [TlsSetIncluded Lazy False,
                 Sync (atenDeviceToBackendDevice X dev)
                   [toString X (atenDeviceToBackendDevice X dev)] True]
           else [])"
  using assms unat_dec[of "nest_counter s"]
  by (auto simp: mode_defs flag_inv_def pos_iff Let_def)

lemma run_flag_inv:
  "flag_inv s \<Longrightarrow> peak (unat (nest_counter s)) cs < 2 ^ 64 \<Longrightarrow> flag_inv (snd (run X cs s))"
proof (induction cs arbitrary: s)
  case Nil
  then show ?case by simp
next
  case (Cons c cs)
  show ?case
  proof (cases c)
    case (Enter dev)
    have pk: "peak (Suc (unat (nest_counter s))) cs < 2 ^ 64"
      using Cons.prems(2) Enter by simp
    then have "unat (nest_counter s) + 1 < 2 ^ 64"
      using peak_ge[of "Suc (unat (nest_counter s))" cs] by simp
    from Enter_step[OF Cons.prems(1) this, of dev] obtain s1 where
      s1: "LazyModeEnter dev s = (Returned (), s1)" "flag_inv s1"
          "unat (nest_counter s1) = Suc (unat (nest_counter s))" by blast
    from Cons.IH[of s1] s1 pk Enter show ?thesis by simp
  next
    case (Exit dev)
    show ?thesis
    proof (cases "nest_counter s = 0")
      case True
      then have "LazyModeExit X dev s = (Raised ScopeUnderflow, s)"
        by (simp add: mode_defs)
      with Exit Cons.prems(1) show ?thesis by simp
    next
      case False
      from Exit_step[OF Cons.prems(1) False, of X dev] obtain s1 where
        s1: "LazyModeExit X dev s = (Returned (), s1)" "flag_inv s1"
            "unat (nest_counter s1) = unat (nest_counter s) - 1" by blast
      have "peak (unat (nest_counter s) - 1) cs < 2 ^ 64"
        using Cons.prems(2) Exit by simp
      with Cons.IH[of s1] s1 Exit show ?thesis by simp
    qed
  qed
qed

text \<open>A balanced sequence, run below the top of the counter, returns and undoes itself.\<close>

lemma run_balanced:
  "balanced r cs \<Longrightarrow> flag_inv s \<Longrightarrow> r \<le> unat (nest_counter s) \<Longrightarrow>
   peak (unat (nest_counter s)) cs < 2 ^ 64 \<Longrightarrow>
   \<exists>s'. run X cs s = (Returned (), s') \<and> flag_inv s'
      \<and> unat (nest_counter s') = unat (nest_counter s) - r
      \<and> excluded s' = excluded s \<and> included s' - {Lazy} = included s - {Lazy}
      \<and> count_list (trace s') (TlsSetIncluded Lazy True)
          = count_list (trace s) (TlsSetIncluded Lazy True)
            + outer_enters (unat (nest_counter s)) cs
      \<and> count_list (trace s') (TlsSetIncluded Lazy False)
          = count_list (trace s) (TlsSetIncluded Lazy False)
            + outer_exits (unat (nest_counter s)) cs"
proof (induction cs arbitrary: r s)
  case Nil
  then show ?case by simp
next
  case (Cons c cs)
  show ?case
  proof (cases c)
    case (Enter dev)
    have pk: "peak (Suc (unat (nest_counter s))) cs < 2 ^ 64"
      using Cons.prems(4) Enter by simp
    then have "unat (nest_counter s) + 1 < 2 ^ 64"
      using peak_ge[of "Suc (unat (nest_counter s))" cs] by simp
    from Enter_step[OF Cons.prems(2) this, of dev] obtain s1 where
      s1: "LazyModeEnter dev s = (Returned (), s1)" "flag_inv s1"
          "unat (nest_counter s1) = Suc (unat (nest_counter s))"
          "excluded s1 = excluded s" "included s1 - {Lazy} = included s - {Lazy}"
          "trace s1 = trace s @ (if nest_counter s = 0 then [TlsSetIncluded Lazy True] else [])"
      by blast
    have bal: "balanced (Suc r) cs" using Cons.prems(1) Enter by simp
    have le: "Suc r \<le> unat (nest_counter s1)" using Cons.prems(3) s1(3) by simp
    from Cons.IH[OF bal s1(2) le] pk s1(3) obtain s' where
      s': "run X cs s1 = (Returned (), s')" "flag_inv s'"
          "unat (nest_counter s') = unat (nest_counter s1) - Suc r"
          "excluded s' = excluded s1" "included s' - {Lazy} = included s1 - {Lazy}"
          "count_list (trace s') (TlsSetIncluded Lazy True)
            = count_list (trace s1) (TlsSetIncluded Lazy True)
              + outer_enters (unat (nest_counter s1)) cs"
          "count_list (trace s') (TlsSetIncluded Lazy False)
            = count_list (trace s1) (TlsSetIncluded Lazy False)
              + outer_exits (unat (nest_counter s1)) cs"
      by auto
    show ?thesis
      using s1 s' Enter by (auto simp: unat_is_0)
  next
    case (Exit dev)
    from Cons.prems(1) Exit obtain r' where r': "r = Suc r'" "balanced r' cs"
      by (cases r) auto
    have nz: "nest_counter s \<noteq> 0"
      using Cons.prems(3) r'(1) unat_is_0[of "nest_counter s"] by auto
    from Exit_step[OF Cons.prems(2) nz, of X dev] obtain s1 where
      s1: "LazyModeExit X dev s = (Returned (), s1)" "flag_inv s1"
          "unat (nest_counter s1) = unat (nest_counter s) - 1"
          "excluded s1 = excluded s" "included s1 - {Lazy} = included s - {Lazy}"
          "trace s1 = trace s @
             (if nest_counter s = 1
              then [TlsSetIncluded Lazy False,
                    Sync (atenDeviceToBackendDevice X dev)
                      [toString X (atenDeviceToBackendDevice X dev)] True]
              else [])"
      by blast
    have pk: "peak (unat (nest_counter s1)) cs < 2 ^ 64"
      using Cons.prems(4) Exit s1(3) by simp
    have le: "r' \<le> unat (nest_counter s1)" using Cons.prems(3) s1(3) r'(1) by simp
    from Cons.IH[OF r'(2) s1(2) le pk] obtain s' where
      s': "run X cs s1 = (Returned (), s')" "flag_inv s'"
          "unat (nest_counter s') = unat (nest_counter s1) - r'"
          "excluded s' = excluded s1" "included s' - {Lazy} = included s1 - {Lazy}"
          "count_list (trace s') (TlsSetIncluded Lazy True)
            = count_list (trace s1) (TlsSetIncluded Lazy True)
              + outer_enters (unat (nest_counter s1)) cs"
          "count_list (trace s') (TlsSetIncluded Lazy False)
            = count_list (trace s1) (TlsSetIncluded Lazy False)
              + outer_exits (unat (nest_counter s1)) cs"
      by auto
    have one: "(nest_counter s = 1) = (unat (nest_counter s) = 1)"
      using unat_is_1[of "nest_counter s"] by simp
    show ?thesis
      using s1 s' Exit r'(1) one by auto
  qed
qed

text \<open>A balanced sequence leaves depth 0 as often as it comes back to it.\<close>

lemma outer_exits_enters:
  "balanced r cs \<Longrightarrow> r \<le> d \<Longrightarrow>
   outer_exits d cs = outer_enters d cs + (if 0 < d \<and> d = r then 1 else 0)"
proof (induction cs arbitrary: r d)
  case Nil
  then show ?case by auto
next
  case (Cons c cs)
  show ?case
  proof (cases c)
    case (Enter dev)
    with Cons.prems have "balanced (Suc r) cs" "Suc r \<le> Suc d" by simp_all
    from Cons.IH[OF this] Enter Cons.prems(2) show ?thesis by auto
  next
    case (Exit dev)
    from Cons.prems(1) Exit obtain r' where r': "r = Suc r'" "balanced r' cs"
      by (cases r) auto
    with Cons.prems(2) have "r' \<le> d - 1" by simp
    from Cons.IH[OF r'(2) this] Exit r'(1) Cons.prems(2) show ?thesis by auto
  qed
qed

text \<open>What \<open>n\<close> Enters in a row do, whatever \<open>n\<close> is: the counter wraps.\<close>

lemma run_append:
  "run X (as @ bs) s =
     (case run X as s of
        (Returned u, s1) \<Rightarrow> run X bs s1
      | (Raised e, s1) \<Rightarrow> (Raised e, s1))"
  by (induction as arbitrary: s) (auto split: prod.splits result.splits)

lemma run_Enters:
  "\<exists>s'. run X (replicate n (Enter dev)) s = (Returned (), s')
      \<and> nest_counter s' = nest_counter s + of_nat n
      \<and> (Lazy \<in> included s \<or> (0 < n \<and> nest_counter s = 0) \<longrightarrow> Lazy \<in> included s')"
proof (induction n arbitrary: s)
  case 0
  show ?case by simp
next
  case (Suc n)
  have "\<exists>s1. LazyModeEnter dev s = (Returned (), s1) \<and> nest_counter s1 = nest_counter s + 1
     \<and> (Lazy \<in> included s \<or> nest_counter s = 0 \<longrightarrow> Lazy \<in> included s1)"
    by (simp add: mode_defs)
  then obtain s1 where s1: "LazyModeEnter dev s = (Returned (), s1)"
     "nest_counter s1 = nest_counter s + 1"
     "Lazy \<in> included s \<or> nest_counter s = 0 \<longrightarrow> Lazy \<in> included s1"
    by blast
  from Suc[of s1] obtain s' where
    "run X (replicate n (Enter dev)) s1 = (Returned (), s')"
    "nest_counter s' = nest_counter s1 + of_nat n"
    "Lazy \<in> included s1 \<longrightarrow> Lazy \<in> included s'" by blast
  with s1 show ?case by auto
qed

lemma balanced_replicate:
  "balanced r (replicate n (Enter d1) @ replicate (n + r) (Exit d2))"
proof (induction n arbitrary: r)
  case 0
  show ?case by (induction r) auto
next
  case (Suc n)
  from Suc[of "Suc r"] show ?case by simp
qed

lemma wrapped_Enters:
  assumes "0 < n" "(of_nat n :: 64 word) = 0"
  shows "\<exists>s'. run X (replicate n (Enter dev)) initial_thread_state = (Returned (), s')
     \<and> nest_counter s' = 0 \<and> Lazy \<in> included s'"
  using run_Enters[of X n dev initial_thread_state] assms
  by (auto simp: initial_thread_state_def)

lemma wrapped_flag:
  assumes "0 < n" "(of_nat n :: 64 word) = 0"
  shows "Lazy \<in> included (snd (run X (replicate n (Enter dev)) initial_thread_state))
   \<and> \<not> 0 < nest_counter (snd (run X (replicate n (Enter dev)) initial_thread_state))
   \<and> \<not> in_lazy_mode (snd (run X (replicate n (Enter dev)) initial_thread_state))"
  using wrapped_Enters[OF assms, of X dev]
  by (auto simp add: in_lazy_mode_def lazy_mode_nests_def)

lemma wrapped_balanced:
  assumes "0 < n" "(of_nat n :: 64 word) = 0"
  shows "balanced 0 (replicate n (Enter dev) @ replicate n (Exit dev))
   \<and> fst (run X (replicate n (Enter dev) @ replicate n (Exit dev)) initial_thread_state)
       = Raised ScopeUnderflow
   \<and> Lazy \<in> included (snd (run X (replicate n (Enter dev) @ replicate n (Exit dev))
                             initial_thread_state))
   \<and> Lazy \<notin> included (initial_thread_state :: 'a thread_state)"
proof -
  from wrapped_Enters[OF assms, of X dev]
  obtain s' where s': "run X (replicate n (Enter dev)) initial_thread_state = (Returned (), s')"
     "nest_counter s' = 0" "Lazy \<in> included s'"
    by blast
  obtain m where m: "n = Suc m" using assms(1) by (cases n) auto
  have "run X (replicate n (Exit dev)) s' = (Raised ScopeUnderflow, s')"
    unfolding m using s'(2) by (simp add: mode_defs)
  with s' balanced_replicate[of 0 n dev dev]
  show ?thesis
    by (auto simp add: run_append initial_thread_state_def)
qed

lemma sync_calls_append: "sync_calls (xs @ ys) = sync_calls xs @ sync_calls ys"
  by (induction xs rule: sync_calls.induct) auto

text \<open>What one call adds to the synchronization calls, from the state it is called in.\<close>

lemma Enter_sync: "sync_calls (trace (snd (LazyModeEnter dev s))) = sync_calls (trace s)"
  by (simp add: mode_defs sync_calls_append)

lemma Exit_at_1:
  "nest_counter s = 1 \<Longrightarrow>
   LazyModeExit X dev s =
     (Returned (),
      s\<lparr>nest_counter := 0, included := included s - {Lazy},
        trace := trace s @
          [TlsSetIncluded Lazy False,
           Sync (atenDeviceToBackendDevice X dev)
             [toString X (atenDeviceToBackendDevice X dev)] True]\<rparr>)"
  by (simp add: mode_defs Let_def)

lemma Exit_not_at_1:
  "nest_counter s \<noteq> 1 \<Longrightarrow>
   sync_calls (trace (snd (LazyModeExit X dev s))) = sync_calls (trace s)"
  by (auto simp: mode_defs Let_def)

lemma run_snoc:
  "snd (run X (cs @ [c]) s) =
     (if fst (run X cs s) = Returned () then snd (step X c (snd (run X cs s)))
      else snd (run X cs s))"
  by (auto simp: run_append split: prod.splits result.splits)

lemma guard_restores: "insert k A - ({k} - A) = A"
  by auto

section \<open>The routing flag and the counter\<close>

text \<open>
  C1 (as amended). From the initial thread state, after every sequence of Enter and
  Exit calls whose nesting depth stays below \<open>2^64\<close>, the range of the \<open>size_t\<close>
  counter, the \<open>Lazy\<close> key is included in the thread-local dispatch keys if and only
  if the counter is greater than 0, and \<open>in_lazy_mode\<close> returns true exactly then.
  The state is the one the calls leave, also when the last of them raised.
\<close>

theorem flag_iff_counter_positive:
  assumes "peak 0 cs < 2 ^ 64"
  shows "(Lazy \<in> included (snd (run X cs initial_thread_state)))
           = (0 < nest_counter (snd (run X cs initial_thread_state)))
       \<and> in_lazy_mode (snd (run X cs initial_thread_state))
           = (Lazy \<in> included (snd (run X cs initial_thread_state)))"
proof -
  have "flag_inv (initial_thread_state :: 'a thread_state)"
    by (simp add: flag_inv_def initial_thread_state_def)
  moreover have "peak (unat (nest_counter (initial_thread_state :: 'a thread_state))) cs < 2 ^ 64"
    using assms by (simp add: initial_thread_state_def)
  ultimately have "flag_inv (snd (run X cs initial_thread_state))"
    by (rule run_flag_inv)
  then show ?thesis
    by (simp add: flag_inv_def in_lazy_mode_def lazy_mode_nests_def)
qed

theorem flag_iff_counter_positive_witness:
  "peak 0 [Enter lazy_any, Enter cpu, Exit lazy0] < 2 ^ 64
   \<and> (Lazy \<in> included (snd (run sample_backend [Enter lazy_any, Enter cpu, Exit lazy0]
                                initial_thread_state)))
   \<and> 0 < nest_counter (snd (run sample_backend [Enter lazy_any, Enter cpu, Exit lazy0]
                                initial_thread_state))
   \<and> in_lazy_mode (snd (run sample_backend [Enter lazy_any, Enter cpu, Exit lazy0]
                            initial_thread_state))"
proof -
  have h: "peak 0 [Enter lazy_any, Enter cpu, Exit lazy0] < 2 ^ 64" by simp
  have c: "0 < nest_counter (snd (run sample_backend [Enter lazy_any, Enter cpu, Exit lazy0]
                                initial_thread_state))"
    by (simp add: mode_defs initial_thread_state_def)
  show ?thesis
    using h c flag_iff_counter_positive [OF h, of sample_backend] by simp
qed

text \<open>
  The claim as stated fails when the counter wraps: after \<open>2^64\<close> Enters in a row the
  counter is 0 again, \<open>in_lazy_mode\<close> returns false, and the \<open>Lazy\<close> key is still
  included.
\<close>

theorem flag_iff_counter_positive_counterexample:
  "Lazy \<in> included (snd (run sample_backend (replicate (2 ^ 64) (Enter lazy_any))
                            initial_thread_state))
   \<and> \<not> 0 < nest_counter (snd (run sample_backend (replicate (2 ^ 64) (Enter lazy_any))
                                 initial_thread_state))
   \<and> \<not> in_lazy_mode (snd (run sample_backend (replicate (2 ^ 64) (Enter lazy_any))
                              initial_thread_state))"
  by (rule wrapped_flag) simp_all

section \<open>Synchronization\<close>

text \<open>
  C2. ScopeDepth is the nesting counter. In every thread state, an Exit that is called
  with the counter at 1 returns, leaves the counter at 0 and makes exactly one call of
  \<open>SyncLiveTensorsGraph\<close>, with the backend device of the device passed to that
  Exit, the name of that one device, and \<open>wait = true\<close>; an Exit that is called with
  any other counter (one that raises, or a nested one) makes no such call, and neither
  does an Enter. So in every sequence of Enter and Exit calls, from any thread state,
  a call adds a synchronization exactly when it is an Exit reached with the counter at
  1, and then adds one.
\<close>

theorem sync_once_per_outermost_exit:
  "sync_calls (trace (snd (LazyModeEnter dev s))) = sync_calls (trace s)
   \<and> (if nest_counter s = 1
      then fst (LazyModeExit X dev s) = Returned ()
           \<and> nest_counter (snd (LazyModeExit X dev s)) = 0
           \<and> sync_calls (trace (snd (LazyModeExit X dev s)))
               = sync_calls (trace s) @
                 [(atenDeviceToBackendDevice X dev,
                   [toString X (atenDeviceToBackendDevice X dev)], True)]
      else sync_calls (trace (snd (LazyModeExit X dev s))) = sync_calls (trace s))
   \<and> sync_calls (trace (snd (run X (cs @ [c]) t)))
       = sync_calls (trace (snd (run X cs t))) @
         (case c of
            Enter d \<Rightarrow> []
          | Exit d \<Rightarrow>
              if fst (run X cs t) = Returned () \<and> nest_counter (snd (run X cs t)) = 1
              then [(atenDeviceToBackendDevice X d,
                     [toString X (atenDeviceToBackendDevice X d)], True)]
              else [])"
proof -
  have ex: "sync_calls (trace (snd (LazyModeExit X d u)))
              = sync_calls (trace u) @
                (if nest_counter u = 1
                 then [(atenDeviceToBackendDevice X d,
                        [toString X (atenDeviceToBackendDevice X d)], True)]
                 else [])" for d u
    using Exit_at_1[of u X d] Exit_not_at_1[of u X d]
    by (cases "nest_counter u = 1") (simp_all add: sync_calls_append)
  have one: "nest_counter s = 1 \<Longrightarrow>
      fst (LazyModeExit X dev s) = Returned () \<and> nest_counter (snd (LazyModeExit X dev s)) = 0"
    using Exit_at_1[of s X dev] by simp
  have last: "sync_calls (trace (snd (run X (cs @ [c]) t)))
       = sync_calls (trace (snd (run X cs t))) @
         (case c of
            Enter d \<Rightarrow> []
          | Exit d \<Rightarrow>
              if fst (run X cs t) = Returned () \<and> nest_counter (snd (run X cs t)) = 1
              then [(atenDeviceToBackendDevice X d,
                     [toString X (atenDeviceToBackendDevice X d)], True)]
              else [])"
    by (cases c) (simp_all add: run_snoc Enter_sync ex)
  show ?thesis
    using one ex[of dev s] last by (simp add: Enter_sync)
qed

theorem sync_once_per_outermost_exit_witness:
  "sync_calls (trace (snd (run sample_backend [Enter lazy_any, Enter cpu, Exit cpu]
                             initial_thread_state))) = []
   \<and> nest_counter (snd (run sample_backend [Enter lazy_any, Enter cpu, Exit cpu]
                           initial_thread_state)) = 1
   \<and> sync_calls (trace (snd (run sample_backend
                                ([Enter lazy_any, Enter cpu, Exit cpu] @ [Exit lazy0])
                                initial_thread_state)))
       = [(lazy0, [''lazy''], True)]"
proof -
  have p: "run sample_backend [Enter lazy_any, Enter cpu, Exit cpu] initial_thread_state
             = (Returned (),
                \<lparr>nest_counter = 1, included = {Lazy}, excluded = {},
                 trace = [TlsSetIncluded Lazy True]\<rparr>)"
    by (simp add: mode_defs initial_thread_state_def)
  show ?thesis
    using p sync_once_per_outermost_exit
              [where X = sample_backend and cs = "[Enter lazy_any, Enter cpu, Exit cpu]"
                 and c = "Exit lazy0" and t = initial_thread_state
                 and s = initial_thread_state and dev = lazy0]
    by (simp add: sample_backend_def)
qed

section \<open>Exit at depth 0\<close>

text \<open>
  C3. When the counter of the thread is 0, \<open>LazyModeExit\<close> raises the error of the
  \<open>TORCH_CHECK\<close> in \<open>_lazy_mode_dec\<close> (ScopeUnderflow) and the thread-local state it
  leaves is the state it was called in: counter, included and excluded keys and the
  trace (no flag written, no synchronization call) are all unchanged.
\<close>

theorem LazyModeExit_underflow:
  "nest_counter s = 0 \<Longrightarrow> LazyModeExit X dev s = (Raised ScopeUnderflow, s)"
  by (simp add: LazyModeExit_def lazy_mode_dec_def lazy_mode_nests_def)

theorem LazyModeExit_underflow_witness:
  "nest_counter (initial_thread_state :: Device thread_state) = 0 \<and>
   LazyModeExit sample_backend lazy_any (initial_thread_state :: Device thread_state)
     = (Raised ScopeUnderflow, initial_thread_state)"
  using LazyModeExit_underflow [of "initial_thread_state :: Device thread_state"
      sample_backend lazy_any]
  by (simp add: initial_thread_state_def)

section \<open>Balanced sequences\<close>

text \<open>
  C4 (as amended). Let a balanced sequence of Enter and Exit calls start in a thread
  state where the \<open>Lazy\<close> key is included exactly when the counter is positive, and let
  its nesting depth stay below \<open>2^64\<close>. Then every call returns; the counter, the
  included keys and the excluded keys after the sequence are those before it; the
  \<open>Lazy\<close> key is set once for each transition of the depth from 0 to 1 and cleared
  once for each transition from 1 to 0, and there are as many of the one as of the
  other, whatever depth is reached in between.
\<close>

theorem balanced_restores_flags:
  assumes "balanced 0 cs"
      and "(Lazy \<in> included s) = (0 < nest_counter s)"
      and "peak (unat (nest_counter s)) cs < 2 ^ 64"
  shows "fst (run X cs s) = Returned ()
       \<and> nest_counter (snd (run X cs s)) = nest_counter s
       \<and> included (snd (run X cs s)) = included s
       \<and> excluded (snd (run X cs s)) = excluded s
       \<and> count_list (trace (snd (run X cs s))) (TlsSetIncluded Lazy True)
           = count_list (trace s) (TlsSetIncluded Lazy True)
             + outer_enters (unat (nest_counter s)) cs
       \<and> count_list (trace (snd (run X cs s))) (TlsSetIncluded Lazy False)
           = count_list (trace s) (TlsSetIncluded Lazy False)
             + outer_exits (unat (nest_counter s)) cs
       \<and> outer_exits (unat (nest_counter s)) cs = outer_enters (unat (nest_counter s)) cs"
proof -
  have inv: "flag_inv s" using assms(2) by (simp add: flag_inv_def)
  from run_balanced[OF assms(1) inv _ assms(3), of X] obtain s' where
    s': "run X cs s = (Returned (), s')" "flag_inv s'"
        "unat (nest_counter s') = unat (nest_counter s)"
        "excluded s' = excluded s" "included s' - {Lazy} = included s - {Lazy}"
        "count_list (trace s') (TlsSetIncluded Lazy True)
          = count_list (trace s) (TlsSetIncluded Lazy True)
            + outer_enters (unat (nest_counter s)) cs"
        "count_list (trace s') (TlsSetIncluded Lazy False)
          = count_list (trace s) (TlsSetIncluded Lazy False)
            + outer_exits (unat (nest_counter s)) cs"
    by auto
  have cnt: "nest_counter s' = nest_counter s"
    using s'(3) by (simp add: word_unat_eq_iff)
  have "(Lazy \<in> included s') = (Lazy \<in> included s)"
    using inv s'(2) cnt by (simp add: flag_inv_def)
  with s'(5) have inc: "included s' = included s" by blast
  have "outer_exits (unat (nest_counter s)) cs = outer_enters (unat (nest_counter s)) cs"
    using outer_exits_enters[OF assms(1), of "unat (nest_counter s)"] by auto
  with s' cnt inc show ?thesis by simp
qed

theorem balanced_restores_flags_witness:
  "balanced 0 [Enter lazy_any, Enter cpu, Exit cpu, Exit lazy0]
   \<and> (Lazy \<in> included inside_state) = (0 < nest_counter inside_state)
   \<and> peak (unat (nest_counter inside_state)) [Enter lazy_any, Enter cpu, Exit cpu, Exit lazy0]
       < 2 ^ 64
   \<and> fst (run sample_backend [Enter lazy_any, Enter cpu, Exit cpu, Exit lazy0] inside_state)
       = Returned ()
   \<and> included (snd (run sample_backend [Enter lazy_any, Enter cpu, Exit cpu, Exit lazy0]
                       inside_state)) = {Lazy}
   \<and> nest_counter (snd (run sample_backend [Enter lazy_any, Enter cpu, Exit cpu, Exit lazy0]
                           inside_state)) = 1"
proof -
  have b: "balanced 0 [Enter lazy_any, Enter cpu, Exit cpu, Exit lazy0]" by simp
  have i: "(Lazy \<in> included inside_state) = (0 < nest_counter inside_state)"
    by (simp add: inside_state_def)
  have p: "peak (unat (nest_counter inside_state))
             [Enter lazy_any, Enter cpu, Exit cpu, Exit lazy0] < 2 ^ 64"
    by (simp add: inside_state_def)
  show ?thesis
    using b i p balanced_restores_flags [OF b i p, of sample_backend]
    by (simp add: inside_state_def)
qed

text \<open>
  The claim as stated fails when the counter wraps: \<open>2^64\<close> Enters followed by
  \<open>2^64\<close> Exits are balanced, but the first Exit finds the counter at 0 and raises,
  and the \<open>Lazy\<close> key, not included before the sequence, is included after it.
\<close>

theorem balanced_restores_flags_counterexample:
  "balanced 0 (replicate (2 ^ 64) (Enter lazy_any) @ replicate (2 ^ 64) (Exit lazy_any))
   \<and> fst (run sample_backend
            (replicate (2 ^ 64) (Enter lazy_any) @ replicate (2 ^ 64) (Exit lazy_any))
            initial_thread_state) = Raised ScopeUnderflow
   \<and> Lazy \<in> included (snd (run sample_backend
            (replicate (2 ^ 64) (Enter lazy_any) @ replicate (2 ^ 64) (Exit lazy_any))
            initial_thread_state))
   \<and> Lazy \<notin> included (initial_thread_state :: Device thread_state)"
  by (rule wrapped_balanced) simp_all

section \<open>What the unlazy handler does\<close>

text \<open>
  C5. When \<open>unlazy_handler\<close> is invoked on a thread that is inside the mode
  (\<open>in_lazy_mode\<close> holds), it logs one warning and redispatches the same operator with
  the same operand stack to the key set that holds the \<open>Lazy\<close> key only. Its outcome
  and the stack it leaves are those of the redispatched call. The counter and the
  included and excluded keys are unchanged, the warning is all it adds to the trace,
  and the eager fallback is not called: the handler does the same whatever the
  fallback is.
\<close>

theorem unlazy_handler_inside_mode:
  assumes "in_lazy_mode s"
  shows "unlazy_handler X op stack s =
           (let s1 = s\<lparr>trace := trace s @
                       [LogWarning [Text ''unlazy_handler is a no-op inside lazy mode'']]\<rparr>;
                r = redispatchBoxed X op {Lazy} stack s1
            in (case fst r of None \<Rightarrow> Returned () | Some e \<Rightarrow> Raised e, snd r, s1))
       \<and> unlazy_handler (X\<lparr>ts_eager_fallback := f\<rparr>) op stack s = unlazy_handler X op stack s"
  using assms
  by (simp add: unlazy_handler_def LOG_WARNING_def Let_def split: prod.splits option.splits)

theorem unlazy_handler_inside_mode_witness:
  "in_lazy_mode inside_state
   \<and> unlazy_handler sample_backend (5 :: nat) [1, 2, 3 :: nat] inside_state =
       (Returned (), [3, 2, 1],
        inside_state\<lparr>trace := [TlsSetIncluded Lazy True,
           LogWarning [Text ''unlazy_handler is a no-op inside lazy mode'']]\<rparr>)"
proof -
  have h: "in_lazy_mode inside_state"
    by (simp add: in_lazy_mode_def lazy_mode_nests_def inside_state_def)
  show ?thesis
    using h unlazy_handler_inside_mode [OF h, of sample_backend 5 "[1, 2, 3]"]
    by (simp add: sample_backend_def inside_state_def Let_def)
qed

text \<open>
  C6. The handler is registered as the fallback of \<open>TESTING_ONLY_GenericWrapper\<close>,
  and that is the key \<open>GetUnlazyDispatchKey\<close> returns. When \<open>unlazy_handler\<close> is
  invoked on a thread that is outside the mode, it logs one warning and calls the
  eager fallback with the same operator and stack in a thread-local state in which
  \<open>TESTING_ONLY_GenericWrapper\<close> is excluded, and with it every key the handler is
  registered under. Whether the fallback returns or throws, the state the handler
  leaves has the excluded keys it was called with: the exclusion the handler added is
  removed on both exits, and the outcome and the stack of the handler are those of
  the fallback.
\<close>

theorem unlazy_handler_outside_mode:
  assumes "\<not> in_lazy_mode s"
  shows "(let s1 = s\<lparr>trace := trace s @
                     [LogWarning [Text ''unlazy_handler is kicking in outside lazy mode'']]\<rparr>;
              s2 = s1\<lparr>excluded := insert TESTING_ONLY_GenericWrapper (excluded s)\<rparr>;
              r = ts_eager_fallback X op stack (EagerFallbackDeviceType X) s2
          in unlazy_handler X op stack s
               = (case fst r of None \<Rightarrow> Returned () | Some e \<Rightarrow> Raised e, snd r, s1)
             \<and> registered_fallback GetUnlazyDispatchKey = Some unlazy_handler_kernel
             \<and> (registered_fallback k = Some unlazy_handler_kernel \<longrightarrow> k \<in> excluded s2)
             \<and> excluded (snd (snd (unlazy_handler X op stack s))) = excluded s)"
  using assms
  by (auto simp add: unlazy_handler_def LOG_WARNING_def Let_def ExcludeDispatchKeyGuard_def
      ExcludeDispatchKeyGuard_destroy_def guard_restores GetUnlazyDispatchKey_def
      registered_fallback_def library_fallbacks_def
      split: prod.splits option.splits if_splits)

theorem unlazy_handler_outside_mode_witness:
  "\<not> in_lazy_mode (initial_thread_state :: Device thread_state)
   \<and> registered_fallback TESTING_ONLY_GenericWrapper = Some unlazy_handler_kernel
   \<and> unlazy_handler probing_backend (5 :: nat) [1, 2, 3 :: nat] initial_thread_state =
       (Raised (CollaboratorError 0), [1, 2, 3],
        initial_thread_state\<lparr>trace :=
           [LogWarning [Text ''unlazy_handler is kicking in outside lazy mode'']]\<rparr>)
   \<and> excluded (snd (snd (unlazy_handler probing_backend (5 :: nat) [1, 2, 3 :: nat]
                            (initial_thread_state :: Device thread_state)))) = {}"
proof -
  have h: "\<not> in_lazy_mode (initial_thread_state :: Device thread_state)"
    by (simp add: in_lazy_mode_def lazy_mode_nests_def initial_thread_state_def)
  have k: "registered_fallback TESTING_ONLY_GenericWrapper = Some unlazy_handler_kernel"
    by (simp add: registered_fallback_def library_fallbacks_def)
  show ?thesis
    using h k unlazy_handler_outside_mode
                [OF h, of probing_backend 5 "[1, 2, 3]" TESTING_ONLY_GenericWrapper]
    by (simp add: probing_backend_def initial_thread_state_def Let_def)
qed

section \<open>What PrepareTensorForMetaKernel returns\<close>

text \<open>
  C7. On a thread inside the mode, for a tensor whose device is not of the lazy device
  type, \<open>PrepareTensorForMetaKernel\<close> logs one warning and returns a newly constructed
  tensor of the lazy device type, bound to the backend device of the given device,
  whose payload is the input tensor.
\<close>

theorem PrepareTensorForMetaKernel_wraps_ordinary:
  assumes "in_lazy_mode s" and "dev_type (device tensor) \<noteq> kLazy"
  shows "PrepareTensorForMetaKernel X tensor lazy_device s =
           (Returned (LTCTensor (Device kLazy None)
                        (LazyTensor (atenDeviceToBackendDevice X lazy_device) tensor)),
            s\<lparr>trace := trace s @
                 [LogWarning [Text ''PrepareTensorForMetaKernel move tensor from '',
                              Dev (device tensor), Text '' to '', Dev lazy_device]]\<rparr>)
       \<and> dev_type (device (LTCTensor (Device kLazy None)
                        (LazyTensor (atenDeviceToBackendDevice X lazy_device) tensor))) = kLazy"
  using assms
  by (simp add: PrepareTensorForMetaKernel_def LOG_WARNING_def Let_def
      CreateAtenFromLtcTensor_def GetOrCreateLtcTensor_def)

theorem PrepareTensorForMetaKernel_wraps_ordinary_witness:
  "in_lazy_mode inside_state \<and> dev_type (device eager_tensor) \<noteq> kLazy
   \<and> fst (PrepareTensorForMetaKernel sample_backend eager_tensor lazy_any inside_state)
       = Returned lazy_tensor"
proof -
  have h: "in_lazy_mode inside_state"
    by (simp add: in_lazy_mode_def lazy_mode_nests_def inside_state_def)
  have t: "dev_type (device eager_tensor) \<noteq> kLazy"
    by (simp add: eager_tensor_def cpu_def)
  show ?thesis
    using h t PrepareTensorForMetaKernel_wraps_ordinary [OF h t, of sample_backend lazy_any]
    by (simp add: sample_backend_def lazy_tensor_def lazy_any_def)
qed

text \<open>
  C8 (as amended). On a thread inside the mode, for a tensor of the lazy device type
  whose device has no index, \<open>PrepareTensorForMetaKernel\<close> logs one warning and
  returns its input; applied again to what it returned, in the state it left, it logs
  the same warning and returns the same tensor again. For a tensor of the lazy device
  type whose device has an index, it logs the warning and raises the internal
  assertion.
\<close>

theorem PrepareTensorForMetaKernel_already_lazy:
  assumes "in_lazy_mode s" and "dev_type (device tensor) = kLazy"
  shows "(let w = LogWarning
                    [Text ''PrepareTensorForMetaKernel skip move for already-lazy tensor on '',
                     Dev (device tensor)];
              s1 = s\<lparr>trace := trace s @ [w]\<rparr>;
              s2 = s\<lparr>trace := trace s @ [w, w]\<rparr>
          in if has_index (device tensor)
             then PrepareTensorForMetaKernel X tensor d1 s
                    = (Raised (InternalAssert ''!tensor.device().has_index()''), s1)
             else PrepareTensorForMetaKernel X tensor d1 s = (Returned tensor, s1)
                  \<and> PrepareTensorForMetaKernel X tensor d2 s1 = (Returned tensor, s2))"
  using assms
  by (simp add: PrepareTensorForMetaKernel_def LOG_WARNING_def Let_def in_lazy_mode_def
      lazy_mode_nests_def)

theorem PrepareTensorForMetaKernel_already_lazy_witness:
  "in_lazy_mode inside_state \<and> dev_type (device lazy_tensor) = kLazy
   \<and> \<not> has_index (device lazy_tensor)
   \<and> fst (PrepareTensorForMetaKernel sample_backend lazy_tensor lazy_any inside_state)
       = Returned lazy_tensor
   \<and> fst (PrepareTensorForMetaKernel sample_backend lazy_tensor lazy_any
            (snd (PrepareTensorForMetaKernel sample_backend lazy_tensor lazy_any inside_state)))
       = Returned lazy_tensor"
proof -
  have h: "in_lazy_mode inside_state"
    by (simp add: in_lazy_mode_def lazy_mode_nests_def inside_state_def)
  have t: "dev_type (device lazy_tensor) = kLazy"
    by (simp add: lazy_tensor_def lazy_any_def)
  have i: "\<not> has_index (device lazy_tensor)"
    by (simp add: lazy_tensor_def lazy_any_def has_index_def)
  show ?thesis
    using h t i
      PrepareTensorForMetaKernel_already_lazy [OF h t, of sample_backend lazy_any lazy_any]
    by (simp add: Let_def)
qed

text \<open>
  The claim as stated fails for a deferred value whose device carries an index: inside
  the mode, on a lazy tensor on device \<open>lazy:0\<close>, the first application already raises
  the internal assertion and returns no value.
\<close>

theorem PrepareTensorForMetaKernel_already_lazy_counterexample:
  "in_lazy_mode inside_state \<and> dev_type (device lazy0_tensor) = kLazy
   \<and> fst (PrepareTensorForMetaKernel sample_backend lazy0_tensor lazy0 inside_state)
       = Raised (InternalAssert ''!tensor.device().has_index()'')"
  by (simp add: PrepareTensorForMetaKernel_def LOG_WARNING_def Let_def in_lazy_mode_def
      lazy_mode_nests_def inside_state_def lazy0_tensor_def lazy0_def has_index_def)

text \<open>
  C9. Whenever \<open>PrepareTensorForMetaKernel\<close> returns a tensor, the device of that
  tensor is of the lazy device type: outside the mode, inside the mode on a tensor
  that is already lazy, and inside the mode on an ordinary tensor.
\<close>

theorem PrepareTensorForMetaKernel_returns_lazy:
  "PrepareTensorForMetaKernel X tensor lazy_device s = (Returned t, s1)
   \<Longrightarrow> dev_type (device t) = kLazy"
  by (auto simp add: PrepareTensorForMetaKernel_def LOG_WARNING_def Let_def
      CreateAtenFromLtcTensor_def GetOrCreateLtcTensor_def split: if_splits)

theorem PrepareTensorForMetaKernel_returns_lazy_witness:
  "PrepareTensorForMetaKernel sample_backend eager_tensor lazy0 inside_state =
     (Returned (LTCTensor lazy_any (LazyTensor lazy0 eager_tensor)),
      inside_state\<lparr>trace := [TlsSetIncluded Lazy True,
         LogWarning [Text ''PrepareTensorForMetaKernel move tensor from '',
                     Dev cpu, Text '' to '', Dev lazy0]]\<rparr>)
   \<and> dev_type (device (LTCTensor lazy_any (LazyTensor lazy0 eager_tensor)
                        :: (nat, Device) Tensor)) = kLazy"
proof -
  have e: "PrepareTensorForMetaKernel sample_backend eager_tensor lazy0 inside_state =
     (Returned (LTCTensor lazy_any (LazyTensor lazy0 eager_tensor)),
      inside_state\<lparr>trace := [TlsSetIncluded Lazy True,
         LogWarning [Text ''PrepareTensorForMetaKernel move tensor from '',
                     Dev cpu, Text '' to '', Dev lazy0]]\<rparr>)"
    by (simp add: PrepareTensorForMetaKernel_def LOG_WARNING_def Let_def in_lazy_mode_def
        lazy_mode_nests_def inside_state_def eager_tensor_def cpu_def lazy_any_def
        sample_backend_def CreateAtenFromLtcTensor_def GetOrCreateLtcTensor_def)
  show ?thesis
    using e PrepareTensorForMetaKernel_returns_lazy [OF e] by simp
qed

section \<open>The device argument\<close>

text \<open>
  C10. \<open>LazyModeEnter\<close> does not read its device argument: for every thread state and
  every two devices, Enter with the one and Enter with the other give the same outcome
  and the same thread-local state. \<open>LazyModeExit\<close> does not read its device argument
  unless it brings the counter from 1 to 0.
\<close>

theorem Enter_and_nested_Exit_ignore_device:
  "LazyModeEnter d1 s = LazyModeEnter d2 s
   \<and> (nest_counter s \<noteq> 1 \<longrightarrow> LazyModeExit X d1 s = LazyModeExit X d2 s)"
  by (auto simp: mode_defs)

theorem Enter_and_nested_Exit_ignore_device_witness:
  "nest_counter (snd (LazyModeEnter cpu inside_state)) \<noteq> 1
   \<and> LazyModeEnter lazy0 inside_state = LazyModeEnter cpu inside_state
   \<and> LazyModeExit sample_backend lazy0 (snd (LazyModeEnter cpu inside_state))
       = LazyModeExit sample_backend cpu (snd (LazyModeEnter cpu inside_state))"
proof -
  have h: "nest_counter (snd (LazyModeEnter cpu inside_state)) \<noteq> 1"
    by (simp add: mode_defs inside_state_def)
  show ?thesis
    using h Enter_and_nested_Exit_ignore_device
              [of lazy0 inside_state cpu sample_backend]
            Enter_and_nested_Exit_ignore_device
              [of lazy0 "snd (LazyModeEnter cpu inside_state)" cpu sample_backend]
    by simp
qed

end
